theory Spec2Isabelle
  imports Main "HOL-Library.Sublist" "HOL-Library.AList"
begin

section \<open>Python strings\<close>

text \<open>
  A Python \<open>str\<close> is modelled as a \<open>string\<close>. The character classes and case mappings
  are Python's on the ASCII range; a character above \<open>0x7F\<close> is carried through as a
  caseless, non-blank, non-word character. An operation that can raise returns a sum, with
  the exception on the left.
\<close>

datatype error = ValueError | IndexError | KeyError

definition is_space :: "char \<Rightarrow> bool" where
  \<comment> \<open>\<open>str.isspace\<close>: tab, line feed, vertical tab, form feed, carriage return,
      the four separators \<open>0x1C\<close> to \<open>0x1F\<close>, and the blank\<close>
  "is_space c = (c \<in> set [CHR 0x09, CHR 0x0A, CHR 0x0B, CHR 0x0C, CHR 0x0D,
                            CHR 0x1C, CHR 0x1D, CHR 0x1E, CHR 0x1F, CHR 0x20])"

definition upper_letters :: string where
  "upper_letters = ''ABCDEFGHIJKLMNOPQRSTUVWXYZ''"

definition lower_letters :: string where
  "lower_letters = ''abcdefghijklmnopqrstuvwxyz''"

definition is_upper :: "char \<Rightarrow> bool" where
  "is_upper c = (c \<in> set upper_letters)"

definition is_lower :: "char \<Rightarrow> bool" where
  "is_lower c = (c \<in> set lower_letters)"

definition is_digit :: "char \<Rightarrow> bool" where
  "is_digit c = (c \<in> set ''0123456789'')"

definition is_cased :: "char \<Rightarrow> bool" where
  "is_cased c = (is_upper c \<or> is_lower c)"

definition is_word :: "char \<Rightarrow> bool" where
  \<comment> \<open>the regular-expression class \<open>\w\<close>\<close>
  "is_word c = (is_upper c \<or> is_lower c \<or> is_digit c \<or> c = CHR ''_'')"

definition lower_char :: "char \<Rightarrow> char" where
  "lower_char c = (case map_of (zip upper_letters lower_letters) c of Some d \<Rightarrow> d | None \<Rightarrow> c)"

definition upper_char :: "char \<Rightarrow> char" where
  "upper_char c = (case map_of (zip lower_letters upper_letters) c of Some d \<Rightarrow> d | None \<Rightarrow> c)"

definition lower_py :: "string \<Rightarrow> string" where
  \<comment> \<open>\<open>s.lower()\<close>\<close>
  "lower_py s = map lower_char s"

definition strip_py :: "string \<Rightarrow> string" where
  \<comment> \<open>\<open>s.strip()\<close>: leading and trailing blanks removed\<close>
  "strip_py s = rev (dropWhile is_space (rev (dropWhile is_space s)))"

fun title_from :: "bool \<Rightarrow> string \<Rightarrow> string" where
  \<comment> \<open>the scan of \<open>s.title()\<close>; the flag says that the previous character was cased\<close>
  "title_from prev [] = []"
| "title_from prev (c # cs) =
     (if prev then lower_char c else upper_char c) # title_from (is_cased c) cs"

definition title_py :: "string \<Rightarrow> string" where
  \<comment> \<open>\<open>s.title()\<close>\<close>
  "title_py s = title_from False s"

fun in_py :: "string \<Rightarrow> string \<Rightarrow> bool" where
  \<comment> \<open>\<open>x in s\<close> on strings: \<open>x\<close> occurs in \<open>s\<close> as a contiguous run\<close>
  "in_py x [] = (x = [])"
| "in_py x (c # cs) = (prefix x (c # cs) \<or> in_py x cs)"

function split_from :: "string \<Rightarrow> string \<Rightarrow> string \<Rightarrow> string list" where
  \<comment> \<open>the scan of \<open>s.split(sep)\<close> for a non-empty separator; \<open>cur\<close> is the piece read so
      far, reversed\<close>
  "split_from sep cur [] = [rev cur]"
| "split_from sep cur (c # cs) =
     (if sep \<noteq> [] \<and> prefix sep (c # cs)
      then rev cur # split_from sep [] (drop (length sep) (c # cs))
      else split_from sep (c # cur) cs)"
  by pat_completeness auto
termination
  by (relation "measure (\<lambda>(sep, cur, s). length s)") auto

definition split_py :: "string \<Rightarrow> string \<Rightarrow> error + string list" where
  \<comment> \<open>\<open>s.split(sep)\<close>; an empty separator raises \<open>ValueError\<close>\<close>
  "split_py s sep = (if sep = [] then Inl ValueError else Inr (split_from sep [] s))"

fun join_py :: "string \<Rightarrow> string list \<Rightarrow> string" where
  \<comment> \<open>\<open>sep.join(pieces)\<close>\<close>
  "join_py sep [] = []"
| "join_py sep [p] = p"
| "join_py sep (p # q # pieces) = p @ sep @ join_py sep (q # pieces)"

definition index_py :: "'a list \<Rightarrow> nat \<Rightarrow> error + 'a" where
  \<comment> \<open>\<open>xs[i]\<close> for a non-negative index\<close>
  "index_py xs i = (if i < length xs then Inr (xs ! i) else Inl IndexError)"


section \<open>Regular expressions\<close>

text \<open>
  The fragment of Python's \<open>re\<close> syntax the scripts use: character classes, sequence,
  alternative and repetition. The matcher takes the derivative of the expression by each
  character of the input in turn.
\<close>

datatype regex =
  Fail
  | Empty
  | Class "char \<Rightarrow> bool"
  | Or regex regex
  | Then regex regex
  | Many regex

definition some :: "regex \<Rightarrow> regex" where
  \<comment> \<open>\<open>r+\<close>\<close>
  "some r = Then r (Many r)"

fun accepts_empty :: "regex \<Rightarrow> bool" where
  "accepts_empty Fail = False"
| "accepts_empty Empty = True"
| "accepts_empty (Class p) = False"
| "accepts_empty (Or r q) = (accepts_empty r \<or> accepts_empty q)"
| "accepts_empty (Then r q) = (accepts_empty r \<and> accepts_empty q)"
| "accepts_empty (Many r) = True"

fun after :: "char \<Rightarrow> regex \<Rightarrow> regex" where
  "after c Fail = Fail"
| "after c Empty = Fail"
| "after c (Class p) = (if p c then Empty else Fail)"
| "after c (Or r q) = Or (after c r) (after c q)"
| "after c (Then r q) =
     (if accepts_empty r then Or (Then (after c r) q) (after c q) else Then (after c r) q)"
| "after c (Many r) = Then (after c r) (Many r)"

definition full_match :: "regex \<Rightarrow> string \<Rightarrow> bool" where
  "full_match r s = accepts_empty (fold after s r)"

definition re_match_anchored :: "regex \<Rightarrow> string \<Rightarrow> bool" where
  \<comment> \<open>\<open>re.match('^' + r + '$', s)\<close> succeeds: \<open>$\<close> stands at the end of the string or
      before a line feed that ends it\<close>
  "re_match_anchored r s =
     (full_match r s \<or> (s \<noteq> [] \<and> last s = CHR 0x0A \<and> full_match r (butlast s)))"

subsection \<open>The strings an expression stands for\<close>



section \<open>The affiliation normalizer\<close>

text \<open>\<open>analyze_registration.py\<close>, \<open>normalize_company_name\<close>.\<close>

definition email_class :: "char \<Rightarrow> bool" where
  \<comment> \<open>the class \<open>[\w\.-]\<close>\<close>
  "email_class c = (is_word c \<or> c = CHR ''.'' \<or> c = CHR ''-'')"

definition email_pattern :: regex where
  \<comment> \<open>\<open>[\w\.-]+@[\w\.-]+\.\w+\<close>\<close>
  "email_pattern =
     Then (some (Class email_class))
       (Then (Class (\<lambda>c. c = CHR ''@''))
         (Then (some (Class email_class))
           (Then (Class (\<lambda>c. c = CHR ''.'')) (some (Class is_word)))))"

definition mappings :: "(string \<times> string list) list" where
  \<comment> \<open>the dictionary of variations, in insertion order\<close>
  "mappings =
    [(''ai2'', [''ai2'']),
     (''AI21'', [''ai21'', ''ai21 labs'']),
     (''Amazon'', [''amazon'']),
     (''Ariel University'', [''ariel'', ''ariel university'']),
     (''Bar Ilan University'', [''bar ilan'', ''bar-ilan'', ''biu'', ''bar ilan university'',
        ''bar-ilan university'', ''bar illan university'', ''bar ilan /'']),
     (''Ben Gurion University'', [''ben gurion'', ''ben-gurion'', ''bgu'', ''ben gurion university'',
        ''ben-gurion university'', ''ben gurion university of the negev'']),
     (''Bold'', [''bold'', ''bold.ai'', ''bold ai'']),
     (''Dicta'', [''dicta'', ''dicta: israel center for text analysis'']),
     (''GE Healthcare'', [''ge healthcare'', ''ge health'']),
     (''Genesys'', [''genesys'']),
     (''Gong'', [''gong'', ''gong io'', ''gong.io'']),
     (''Google'', [''google'', ''google research'']),
     (''Hebrew University'', [''hebrew university'', ''huji'', ''the hebrew university'',
        ''the hebrew university of jerusalem'', ''hebrew university of jerusalem'']),
     (''IBM'', [''ibm'', ''ibm r'', ''ibm research'', ''ibm resaerch'', ''ibm research - isrl'']),
     (''IDF'', [''idf'']),
     (''Intel'', [''intel'']),
     (''Microsoft'', [''microsoft'']),
     (''Nexxen'', [''nexxen'']),
     (''OriginAI'', [''originai'']),
     (''Reichman University'', [''reichman'', ''reichman university'', ''reichmann university'']),
     (''Rival Security'', [''rival security'', ''rival'']),
     (''Salesforce'', [''salesforce'', ''salesforce.com'']),
     (''Second Nature'', [''second nature'', ''second nature ai'']),
     (''Sheba AI Center'', [''sheba'', ''sheba ai center'', ''sheba medical center'',
        ''arc sheba ai center'']),
     (''Technion'', [''technion'', ''technion - israel institute of technology'',
        ''technion- israel institute for technology'']),
     (''Tel Aviv University'', [''tau'', ''tel aviv university'', ''tel aviv university '']),
     (''Walmart'', [''walmart'', ''walmart (aspectiva)'', ''walmart aspectiva'']),
     (''Weizmann Institute'', [''weizmann'', ''weizmann institute'',
        ''weizmann institute of science'']),
     (''Wix'', [''wix'', ''wix.com''])]"

definition separators :: "string list" where
  "separators = ['','', ''/'', '' and '', ''&'']"

definition email_domain :: "string \<Rightarrow> error + string" where
  \<comment> \<open>the value that is matched: the domain of an email address, any other value as it is\<close>
  "email_domain company =
     (if in_py ''@'' company \<and> re_match_anchored email_pattern company
      then (case split_py company ''@'' of
              Inl e \<Rightarrow> Inl e
            | Inr pieces \<Rightarrow> index_py pieces 1)
      else Inr company)"

fun split_on_first :: "string list \<Rightarrow> string \<Rightarrow> error + string list" where
  \<comment> \<open>the loop over the separators, left at the first one that occurs\<close>
  "split_on_first [] company = Inr []"
| "split_on_first (sep # seps) company =
     (if in_py sep company
      then (case split_py company sep of
              Inl e \<Rightarrow> Inl e
            | Inr pieces \<Rightarrow> Inr (map strip_py pieces))
      else split_on_first seps company)"

definition potential_parts :: "string \<Rightarrow> error + string list" where
  "potential_parts company =
     (case split_on_first separators company of
        Inl e \<Rightarrow> Inl e
      | Inr parts \<Rightarrow> Inr (if parts = [] then [company] else parts))"

fun match_variations :: "string \<Rightarrow> string \<Rightarrow> string list \<Rightarrow> string list \<Rightarrow> string list \<times> bool" where
  \<comment> \<open>the loop over the variations of one canonical name; returns the list \<open>normalized\<close> and
      the flag \<open>matched\<close>\<close>
  "match_variations part canonical [] normalized = (normalized, False)"
| "match_variations part canonical (variation # variations) normalized =
     (if in_py variation part \<or> in_py part variation
      then ((if canonical \<notin> set normalized then normalized @ [canonical] else normalized), True)
      else match_variations part canonical variations normalized)"

fun match_mappings :: "string \<Rightarrow> (string \<times> string list) list \<Rightarrow> string list \<Rightarrow> string list \<times> bool" where
  \<comment> \<open>the loop over the entries of the dictionary, left once \<open>matched\<close> is set\<close>
  "match_mappings part [] normalized = (normalized, False)"
| "match_mappings part ((canonical, variations) # entries) normalized =
     (case match_variations part canonical variations normalized of
        (normalized', matched) \<Rightarrow>
          if matched then (normalized', True) else match_mappings part entries normalized')"

fun normalize_parts :: "string list \<Rightarrow> string list \<Rightarrow> string list" where
  \<comment> \<open>the loop over the parts\<close>
  "normalize_parts [] normalized = normalized"
| "normalize_parts (p # parts) normalized =
     (let part = strip_py p in
      if part = [] then normalize_parts parts normalized
      else (case match_mappings part mappings normalized of
              (normalized', matched) \<Rightarrow>
                if matched then normalize_parts parts normalized'
                else normalize_parts parts (normalized' @ [title_py part])))"

definition or_not_specified :: "string list \<Rightarrow> string list" where
  \<comment> \<open>\<open>normalized if normalized else ['Not specified']\<close>\<close>
  "or_not_specified normalized = (if normalized = [] then [''Not specified''] else normalized)"

definition normalize_company_name :: "string option \<Rightarrow> error + string list" where
  \<comment> \<open>\<open>None\<close> is a missing value (\<open>pd.isna\<close>)\<close>
  "normalize_company_name company =
     (case company of
        None \<Rightarrow> Inr [''Not specified'']
      | Some s \<Rightarrow>
          if s = ''-'' then Inr [''Not specified'']
          else (case email_domain (lower_py (strip_py s)) of
                  Inl e \<Rightarrow> Inl e
                | Inr company' \<Rightarrow>
                    (case potential_parts company' of
                       Inl e \<Rightarrow> Inl e
                     | Inr parts \<Rightarrow>
                         Inr (or_not_specified (normalize_parts parts [])))))"

subsection \<open>The specification's reading of the steps\<close>

definition fragments :: "string \<Rightarrow> string list" where
  \<comment> \<open>the value split at the first separator that occurs in it, trying comma, slash,
      the word \<open>and\<close> between blanks, ampersand in this order; the whole value when none
      occurs\<close>
  "fragments company =
     (case find (\<lambda>sep. in_py sep company) ['','', ''/'', '' and '', ''&''] of
        None \<Rightarrow> [company]
      | Some sep \<Rightarrow> map strip_py (split_from sep [] company))"

definition matches_canonical :: "string \<Rightarrow> string list \<Rightarrow> bool" where
  \<comment> \<open>the fragment contains one of the variants, or one of the variants contains it\<close>
  "matches_canonical fragment variations =
     (\<exists>variation \<in> set variations. in_py variation fragment \<or> in_py fragment variation)"

definition first_match :: "string \<Rightarrow> (string \<times> string list) list \<Rightarrow> string option" where
  \<comment> \<open>the canonical name of the first entry, in the order of the table, that the fragment
      matches\<close>
  "first_match fragment entries =
     map_option fst (find (\<lambda>(canonical, variations). matches_canonical fragment variations) entries)"

section \<open>The poster page generator\<close>






















subsection \<open>The page in closed form\<close>




section \<open>Properties of the string operations\<close>

lemma in_py_iff: "in_py x s \<longleftrightarrow> (\<exists>p q. s = p @ x @ q)"
proof (induction s)
  case Nil
  then show ?case by auto
next
  case (Cons c cs)
  show ?case
  proof
    assume "in_py x (c # cs)"
    then consider "prefix x (c # cs)" | "in_py x cs" by auto
    then show "\<exists>p q. c # cs = p @ x @ q"
    proof cases
      case 1
      then obtain q where "c # cs = x @ q" by (auto simp: prefix_def)
      then have "c # cs = [] @ x @ q" by simp
      then show ?thesis by blast
    next
      case 2
      with Cons.IH obtain p q where "cs = p @ x @ q" by blast
      then have "c # cs = (c # p) @ x @ q" by simp
      then show ?thesis by blast
    qed
  next
    assume "\<exists>p q. c # cs = p @ x @ q"
    then obtain p q where pq: "c # cs = p @ x @ q" by blast
    show "in_py x (c # cs)"
    proof (cases p)
      case Nil
      with pq have "prefix x (c # cs)" by (simp add: prefix_def)
      then show ?thesis by simp
    next
      case (Cons a p')
      with pq have "cs = p' @ x @ q" by simp
      with Cons.IH have "in_py x cs" by blast
      then show ?thesis by simp
    qed
  qed
qed



lemma split_from_nonempty: "split_from sep cur s \<noteq> []"
  by (induction sep cur s rule: split_from.induct) auto

lemma split_from_two:
  "sep \<noteq> [] \<Longrightarrow> in_py sep s \<Longrightarrow> 2 \<le> length (split_from sep cur s)"
proof (induction sep cur s rule: split_from.induct)
  case (1 sep cur)
  then show ?case by simp
next
  case (2 sep cur c cs)
  show ?case
  proof (cases "prefix sep (c # cs)")
    case True
    have "1 \<le> length (split_from sep [] (drop (length sep) (c # cs)))"
      using split_from_nonempty [of sep "[]" "drop (length sep) (c # cs)"]
      by (cases "split_from sep [] (drop (length sep) (c # cs))") auto
    with True 2 show ?thesis by simp
  next
    case False
    with 2 show ?thesis by simp
  qed
qed


lemma join_py_Cons: "pieces \<noteq> [] \<Longrightarrow> join_py sep (p # pieces) = p @ sep @ join_py sep pieces"
  by (cases pieces) simp_all

lemma split_from_join: "join_py sep (split_from sep cur s) = rev cur @ s"
proof (induction sep cur s rule: split_from.induct)
  case (1 sep cur)
  then show ?case by simp
next
  case (2 sep cur c cs)
  show ?case
  proof (cases "sep \<noteq> [] \<and> prefix sep (c # cs)")
    case True
    then have eq: "sep @ drop (length sep) (c # cs) = c # cs"
      by (metis append_take_drop_id prefix_def append_eq_conv_conj)
    from True have "split_from sep cur (c # cs) =
        rev cur # split_from sep [] (drop (length sep) (c # cs))"
      by simp
    then have "join_py sep (split_from sep cur (c # cs)) =
        rev cur @ sep @ join_py sep (split_from sep [] (drop (length sep) (c # cs)))"
      by (simp only: join_py_Cons [OF split_from_nonempty])
    also have "\<dots> = rev cur @ sep @ drop (length sep) (c # cs)"
      using 2(1) True by simp
    finally show ?thesis using eq by simp
  next
    case False
    with 2(2) have "join_py sep (split_from sep (c # cur) cs) = rev (c # cur) @ cs" by blast
    with False show ?thesis by auto
  qed
qed

section \<open>The matcher decides membership\<close>











section \<open>Properties of the affiliation normalizer\<close>

lemma split_on_first_find:
  "[] \<notin> set seps \<Longrightarrow>
   split_on_first seps company =
     Inr (case find (\<lambda>sep. in_py sep company) seps of
            None \<Rightarrow> []
          | Some sep \<Rightarrow> map strip_py (split_from sep [] company))"
  by (induction seps) (auto simp: split_py_def)

lemma potential_parts_fragments: "potential_parts company = Inr (fragments company)"
proof -
  have ne: "[] \<notin> set separators" by (simp add: separators_def)
  show ?thesis
  proof (cases "find (\<lambda>sep. in_py sep company) separators")
    case None
    then show ?thesis
      using split_on_first_find [OF ne, of company]
      by (simp add: potential_parts_def fragments_def separators_def)
  next
    case (Some sep)
    have "split_from sep [] company \<noteq> []" by (rule split_from_nonempty)
    with Some show ?thesis
      using split_on_first_find [OF ne, of company]
      by (simp add: potential_parts_def fragments_def separators_def)
  qed
qed

lemma email_domain_Inr:
  "email_domain company =
     Inr (if in_py ''@'' company \<and> re_match_anchored email_pattern company
          then split_from ''@'' [] company ! 1 else company)"
proof (cases "in_py ''@'' company \<and> re_match_anchored email_pattern company")
  case True
  then have "2 \<le> length (split_from ''@'' [] company)"
    by (intro split_from_two) auto
  with True show ?thesis
    by (simp add: email_domain_def split_py_def index_py_def)
next
  case False
  then show ?thesis by (auto simp add: email_domain_def)
qed

lemma normalize_company_name_Some:
  "normalize_company_name (Some s) =
     (if s = ''-'' then Inr [''Not specified'']
      else Inr (or_not_specified (normalize_parts
             (fragments (if in_py ''@'' (lower_py (strip_py s))
                            \<and> re_match_anchored email_pattern (lower_py (strip_py s))
                         then split_from ''@'' [] (lower_py (strip_py s)) ! 1
                         else lower_py (strip_py s))) [])))"
  by (simp add: normalize_company_name_def email_domain_Inr potential_parts_fragments)

lemma match_variations_eq:
  "match_variations part canonical variations normalized =
     (if matches_canonical part variations
      then ((if canonical \<notin> set normalized then normalized @ [canonical] else normalized), True)
      else (normalized, False))"
  by (induction variations) (auto simp: matches_canonical_def)

lemma match_mappings_eq:
  "match_mappings part entries normalized =
     (case first_match part entries of
        None \<Rightarrow> (normalized, False)
      | Some canonical \<Rightarrow>
          ((if canonical \<notin> set normalized then normalized @ [canonical] else normalized), True))"
  by (induction entries) (auto simp: match_variations_eq first_match_def)

lemma normalize_parts_Cons:
  "normalize_parts (p # parts) normalized =
     (if strip_py p = [] then normalize_parts parts normalized
      else normalize_parts parts
        (case first_match (strip_py p) mappings of
           None \<Rightarrow> normalized @ [title_py (strip_py p)]
         | Some canonical \<Rightarrow>
             if canonical \<notin> set normalized then normalized @ [canonical] else normalized))"
  by (simp add: match_mappings_eq Let_def split: option.split)

lemma first_match_in_table:
  "first_match part entries = Some canonical \<Longrightarrow> canonical \<in> fst ` set entries"
  by (induction entries) (auto simp: first_match_def split: if_splits)

lemma mappings_names_nonempty: "[] \<notin> fst ` set mappings"
  by (simp add: mappings_def)

lemma title_py_nonempty: "s \<noteq> [] \<Longrightarrow> title_py s \<noteq> []"
  by (cases s) (simp_all add: title_py_def)

lemma normalize_parts_nonempty_entries:
  "[] \<notin> set normalized \<Longrightarrow> [] \<notin> set (normalize_parts parts normalized)"
proof (induction parts arbitrary: normalized)
  case Nil
  then show ?case by simp
next
  case (Cons p parts)
  show ?case
  proof (cases "strip_py p = []")
    case True
    with Cons show ?thesis by (simp add: normalize_parts_Cons del: normalize_parts.simps)
  next
    case False
    show ?thesis
    proof (cases "first_match (strip_py p) mappings")
      case None
      from False have "title_py (strip_py p) \<noteq> []" by (rule title_py_nonempty)
      with Cons.prems have "[] \<notin> set (normalized @ [title_py (strip_py p)])" by auto
      then have "[] \<notin> set (normalize_parts parts (normalized @ [title_py (strip_py p)]))"
        by (rule Cons.IH)
      with False None show ?thesis by (simp add: normalize_parts_Cons del: normalize_parts.simps)
    next
      case (Some canonical)
      then have "canonical \<noteq> []"
        using first_match_in_table [OF Some] mappings_names_nonempty by metis
      with Cons.prems have
        "[] \<notin> set (if canonical \<notin> set normalized then normalized @ [canonical] else normalized)"
        by auto
      then have "[] \<notin> set (normalize_parts parts
          (if canonical \<notin> set normalized then normalized @ [canonical] else normalized))"
        by (rule Cons.IH)
      with False Some show ?thesis by (simp add: normalize_parts_Cons del: normalize_parts.simps)
    qed
  qed
qed

lemma or_not_specified_nonempty:
  "[] \<notin> set normalized \<Longrightarrow> or_not_specified normalized \<noteq> [] \<and> [] \<notin> set (or_not_specified normalized)"
  by (simp add: or_not_specified_def)

lemma find_Some_first:
  "find P xs = Some x \<longleftrightarrow>
     (\<exists>i<length xs. xs ! i = x \<and> P (xs ! i) \<and> (\<forall>j<i. \<not> P (xs ! j)))"
  by (auto simp: find_Some_iff)

lemma first_match_iff:
  "first_match part entries = Some canonical \<longleftrightarrow>
     (\<exists>i<length entries. fst (entries ! i) = canonical
        \<and> matches_canonical part (snd (entries ! i))
        \<and> (\<forall>j<i. \<not> matches_canonical part (snd (entries ! j))))"
proof -
  let ?P = "\<lambda>(canonical, variations). matches_canonical part variations"
  have P: "?P e = matches_canonical part (snd e)" for e by (cases e) simp
  have "first_match part entries = Some canonical \<longleftrightarrow>
      (\<exists>e. find ?P entries = Some e \<and> fst e = canonical)"
    by (auto simp: first_match_def)
  also have "\<dots> \<longleftrightarrow> (\<exists>e. (\<exists>i<length entries. entries ! i = e \<and> ?P (entries ! i)
        \<and> (\<forall>j<i. \<not> ?P (entries ! j))) \<and> fst e = canonical)"
    by (simp only: find_Some_first)
  also have "\<dots> \<longleftrightarrow> (\<exists>i<length entries. fst (entries ! i) = canonical
        \<and> matches_canonical part (snd (entries ! i))
        \<and> (\<forall>j<i. \<not> matches_canonical part (snd (entries ! j))))"
    unfolding P by blast
  finally show ?thesis .
qed

subsection \<open>Email addresses\<close>











section \<open>Properties of the poster page generator\<close>









section \<open>Main results\<close>

text \<open>
  C1. The result is meant to hold no entry twice. A canonical name is appended only when it
  is not yet in the list, but an unmatched fragment is appended in title case unchecked:
  the value \<open>foo, foo\<close> gives \<open>['Foo', 'Foo']\<close>.
\<close>

theorem normalize_company_name_repeats_fragment:
  "normalize_company_name (Some ''foo, foo'') = Inr [''Foo'', ''Foo'']
   \<and> \<not> distinct [''Foo'', ''Foo'']"
  by code_simp

text \<open>
  C2. A missing value, the empty string and the placeholder \<open>-\<close> each give the one-element
  list \<open>['Not specified']\<close>.
\<close>

theorem normalize_company_name_placeholder:
  "normalize_company_name None = Inr [''Not specified'']
   \<and> normalize_company_name (Some '''') = Inr [''Not specified'']
   \<and> normalize_company_name (Some ''-'') = Inr [''Not specified'']"
  by code_simp

text \<open>
  C3. For every input the function returns a list that is not empty and holds no empty
  string.
\<close>

theorem normalize_company_name_nonempty:
  "\<exists>r. normalize_company_name company = Inr r \<and> r \<noteq> [] \<and> [] \<notin> set r"
proof (cases company)
  case None
  then show ?thesis by (simp add: normalize_company_name_def)
next
  case (Some s)
  show ?thesis
  proof (cases "s = ''-''")
    case True
    with Some show ?thesis by (simp add: normalize_company_name_def)
  next
    case False
    have "[] \<notin> set (normalize_parts parts [])" for parts
      by (rule normalize_parts_nonempty_entries) simp
    then show ?thesis
      using Some False or_not_specified_nonempty
      by (simp add: normalize_company_name_Some)
  qed
qed

text \<open>
  C4. A fragment matches a canonical name exactly when it contains one of the variants of
  that name or one of them contains it; the entries are scanned in the order of the table
  and the scan stops at the first entry that matches, whose canonical name is appended
  unless it is already in the list. In particular the value
  \<open>Technion - Israel Institute of Technology\<close> gives \<open>['Technion']\<close>.
\<close>

theorem match_mappings_first_match:
  "match_mappings part entries normalized =
     (case first_match part entries of
        None \<Rightarrow> (normalized, False)
      | Some canonical \<Rightarrow>
          ((if canonical \<notin> set normalized then normalized @ [canonical] else normalized), True))
   \<and> (first_match part entries = Some canonical \<longleftrightarrow>
        (\<exists>i<length entries. fst (entries ! i) = canonical
           \<and> matches_canonical part (snd (entries ! i))
           \<and> (\<forall>j<i. \<not> matches_canonical part (snd (entries ! j)))))
   \<and> (matches_canonical part variations \<longleftrightarrow>
        (\<exists>variation \<in> set variations.
           (\<exists>p q. part = p @ variation @ q) \<or> (\<exists>p q. variation = p @ part @ q)))
   \<and> normalize_company_name (Some ''Technion - Israel Institute of Technology'') = Inr [''Technion'']"
proof (intro conjI)
  show "match_mappings part entries normalized =
     (case first_match part entries of
        None \<Rightarrow> (normalized, False)
      | Some canonical \<Rightarrow>
          ((if canonical \<notin> set normalized then normalized @ [canonical] else normalized), True))"
    by (rule match_mappings_eq)
  show "first_match part entries = Some canonical \<longleftrightarrow>
        (\<exists>i<length entries. fst (entries ! i) = canonical
           \<and> matches_canonical part (snd (entries ! i))
           \<and> (\<forall>j<i. \<not> matches_canonical part (snd (entries ! j))))"
    by (rule first_match_iff)
  show "matches_canonical part variations \<longleftrightarrow>
        (\<exists>variation \<in> set variations.
           (\<exists>p q. part = p @ variation @ q) \<or> (\<exists>p q. variation = p @ part @ q))"
    by (simp add: matches_canonical_def in_py_iff)
  show "normalize_company_name (Some ''Technion - Israel Institute of Technology'') = Inr [''Technion'']"
    by code_simp
qed

theorem match_mappings_first_match_witness:
  "match_mappings ''tau'' mappings [''Intel''] = ([''Intel'', ''Tel Aviv University''], True)
   \<and> (\<exists>i<length mappings. fst (mappings ! i) = ''Tel Aviv University''
         \<and> matches_canonical ''tau'' (snd (mappings ! i)))"
proof -
  have fm: "first_match ''tau'' mappings = Some ''Tel Aviv University''"
    by code_simp
  note c4 = match_mappings_first_match [of "''tau''" mappings "[''Intel'']" "''Tel Aviv University''" "[]"]
  from c4 [THEN conjunct1] fm
  have "match_mappings ''tau'' mappings [''Intel''] = ([''Intel'', ''Tel Aviv University''], True)"
    by simp
  moreover from c4 [THEN conjunct2, THEN conjunct1] fm
  have "\<exists>i<length mappings. fst (mappings ! i) = ''Tel Aviv University''
         \<and> matches_canonical ''tau'' (snd (mappings ! i))"
    by blast
  ultimately show ?thesis by (rule conjI)
qed





text \<open>
  C7. A canonical name is meant to be mapped to itself. The table lists \<open>ai21\<close> as a variant
  of \<open>AI21\<close>, but the entry \<open>ai2\<close> stands before it and its variant \<open>ai2\<close> occurs in
  \<open>ai21\<close>: the canonical name \<open>AI21\<close> gives \<open>['ai2']\<close>. It is the only key of the table
  that is not mapped to itself.
\<close>

theorem normalize_company_name_AI21:
  "normalize_company_name (Some ''AI21'') = Inr [''ai2'']
   \<and> filter (\<lambda>(canonical, variations).
               normalize_company_name (Some canonical) \<noteq> Inr [canonical]) mappings
       = [(''AI21'', [''ai21'', ''ai21 labs''])]"
  by code_simp

text \<open>
  C8. The function is total: for every string and for a missing value it returns a list;
  the index into the pieces of the split at \<open>@\<close>, the splits and the pattern match raise
  no error on any input.
\<close>

theorem normalize_company_name_total:
  "\<exists>r. normalize_company_name company = Inr r"
proof (cases company)
  case None
  then show ?thesis by (simp add: normalize_company_name_def)
next
  case (Some s)
  then show ?thesis by (simp add: normalize_company_name_Some)
qed



end
